theory Spec2Isabelle
  imports Complex_Main "HOL-Library.Sublist" "HOL-Library.Word"
begin

chapter \<open>The model\<close>

section \<open>JavaScript strings and numbers\<close>

text \<open>
  The decimal digits of a number, as template literals (\<open>`${index + 1}`\<close>, \<open>`${code}`\<close>)
  print an integer.
\<close>

definition digitChar :: "nat \<Rightarrow> char" where
  "digitChar d = char_of (48 + d)"

fun showNat :: "nat \<Rightarrow> string" where
  "showNat n = (if n < 10 then [digitChar n] else showNat (n div 10) @ [digitChar (n mod 10)])"

declare showNat.simps [simp del]


section \<open>Subtitle reconstruction: \<open>EdgeTTS._saveSubFile\<close>\<close>









section \<open>The protocol client: \<open>class EdgeTTS\<close>\<close>

text \<open>
  The fields of the class, set by the constructor. Strings that travel on the wire are
  lists of \<^typ>\<open>char\<close>; a binary frame (\<open>Buffer\<close>) is a list of bytes, also written as
  \<^typ>\<open>string\<close>.
\<close>

record configure =
  voice :: string
  lang :: string
  outputFormat :: string
  saveSubtitles :: bool
  proxy :: string
  rate :: string
  pitch :: string
  volume :: string
  timeout :: nat




subsection \<open>The frames the client sends\<close>






subsection \<open>Frames received during a turn\<close>










subsection \<open>The turn: \<open>ttsPromise\<close> after the socket is connected\<close>



















subsection \<open>A sample turn\<close>





section \<open>File names and \<open>sortAudioDir\<close>\<close>

text \<open>
  Paths are absolute and normalised, with \<open>/\<close> as the separator: \<open>path.resolve(dir, name)\<close>
  and \<open>path.join\<close> put a separator between their arguments (an empty first argument of
  \<open>path.join\<close> is dropped).
\<close>

definition pathResolve :: "string \<Rightarrow> string \<Rightarrow> string" where
  "pathResolve dir name = dir @ ''/'' @ name"

definition pathJoin :: "string \<Rightarrow> string \<Rightarrow> string" where
  "pathJoin dir name = (if dir = [] then name else dir @ ''/'' @ name)"

text \<open>\<open>path.parse(p).base\<close>: what follows the last separator.\<close>

definition basename :: "string \<Rightarrow> string" where
  "basename p = rev (takeWhile (\<lambda>c. c \<noteq> CHR ''/'') (rev p))"

text \<open>
  \<open>path.extname(p)\<close>: from the last dot of the base name to its end; empty when the base
  name has no dot, when its only dot is its first character, and for \<open>..\<close>.
\<close>

definition extname :: "string \<Rightarrow> string" where
  "extname p =
     (let base = basename p;
          afterDot = rev (takeWhile (\<lambda>c. c \<noteq> CHR ''.'') (rev base))
      in if CHR ''.'' \<notin> set base \<or> length afterDot + 1 = length base \<or> base = ''..''
         then []
         else CHR ''.'' # afterDot)"

text \<open>\<open>path.parse(p).name\<close>: the base name without the extension.\<close>

definition pathName :: "string \<Rightarrow> string" where
  "pathName p = (let base = basename p in take (length base - length (extname p)) base)"

text \<open>\<open>toLowerCase()\<close> on the letters \<open>A\<close> to \<open>Z\<close>; other bytes are unchanged.\<close>

definition toLowerCase :: "string \<Rightarrow> string" where
  "toLowerCase s =
     map (\<lambda>c. if 65 \<le> (of_char c :: nat) \<and> (of_char c :: nat) \<le> 90
              then char_of ((of_char c :: nat) + 32) else c) s"

text \<open>\<open>s.split('_')[0]\<close>: what precedes the first underscore.\<close>

definition beforeUnderscore :: "string \<Rightarrow> string" where
  "beforeUnderscore s = takeWhile (\<lambda>c. c \<noteq> CHR ''_'') s"

text \<open>
  \<open>Number(s)\<close> for the strings that stand before the underscore of a file name here: a
  string of decimal digits is its value, and the empty string is 0. Every other string
  is taken as \<open>NaN\<close>; signs, fractions, exponents, hexadecimal literals and surrounding
  blanks, which \<open>Number\<close> also reads, do not occur in the names this development speaks
  about.
\<close>

datatype jsNum = Num int | NaN

definition isDigit :: "char \<Rightarrow> bool" where
  "isDigit c = (48 \<le> (of_char c :: nat) \<and> (of_char c :: nat) \<le> 57)"

definition digitsValue :: "string \<Rightarrow> nat" where
  "digitsValue s = foldl (\<lambda>acc c. 10 * acc + (of_char c - 48)) 0 s"

definition jsNumber :: "string \<Rightarrow> jsNum" where
  "jsNumber s = (if list_all isDigit s then Num (int (digitsValue s)) else NaN)"

text \<open>
  The comparator of \<open>sortAudioDir\<close>,
  \<open>(a, b) => Number(path.parse(a).name.split('_')[0]) - Number(path.parse(b).name.split('_')[0])\<close>.
\<close>

definition namePrefix :: "string \<Rightarrow> jsNum" where
  "namePrefix file = jsNumber (beforeUnderscore (pathName file))"

definition compareFn :: "string \<Rightarrow> string \<Rightarrow> jsNum" where
  "compareFn a b =
     (case (namePrefix a, namePrefix b) of
        (Num x, Num y) \<Rightarrow> Num (x - y)
      | _ \<Rightarrow> NaN)"

text \<open>
  \<open>Array.prototype.sort(compareFn)\<close> is stable, and reads a comparator value of \<open>NaN\<close> as
  0. With a comparator that is a consistent order every sort gives the same result; the
  model is the stable insertion sort. Where the comparator is not consistent (some name
  has no number before its underscore) the order of the result is left to the
  implementation, and the insertion sort is one of them.
\<close>

definition notAfter :: "string \<Rightarrow> string \<Rightarrow> bool" where
  "notAfter a b = (case compareFn a b of Num d \<Rightarrow> d \<le> 0 | NaN \<Rightarrow> True)"

fun insertSorted :: "('a \<Rightarrow> 'a \<Rightarrow> bool) \<Rightarrow> 'a \<Rightarrow> 'a list \<Rightarrow> 'a list" where
  "insertSorted le x [] = [x]"
| "insertSorted le x (y # ys) = (if le x y then x # y # ys else y # insertSorted le x ys)"

definition jsSort :: "('a \<Rightarrow> 'a \<Rightarrow> bool) \<Rightarrow> 'a list \<Rightarrow> 'a list" where
  "jsSort le xs = foldr (insertSorted le) xs []"

definition sortAudioDir :: "string list \<Rightarrow> string \<Rightarrow> string list" where
  "sortAudioDir fileList ext =
     jsSort notAfter (filter (\<lambda>file. toLowerCase (extname file) = ext) fileList)"

text \<open>The file of the segment with index \<open>index\<close>: \<open>path.resolve(tmpDirPath, `${index + 1}_splits.mp3`)\<close>.\<close>

definition splitOutput :: "string \<Rightarrow> nat \<Rightarrow> string" where
  "splitOutput tmpDirPath index = pathResolve tmpDirPath (showNat (index + 1) @ ''_splits.mp3'')"

section \<open>The orchestrator: \<open>generateTTS\<close>\<close>

subsection \<open>Data\<close>

text \<open>
  Errors are values: the messages of \<open>enum ErrorMessages\<close> that the code under study
  throws, the \<open>TypeError\<close> of reading a property of \<open>undefined\<close>, the two errors of the
  concatenation functions, and \<open>Thrown\<close> for an error raised by a collaborator (a remote
  call, the transcoder, the file system).
\<close>

datatype error =
    ENG_MODEL_INVALID_TEXT
  | INCOMPLETE_RESULT string
  | LLMResponseNotArray
  | TypeError
  | NoMP3Files
  | NoJSONFiles
  | Thrown string

text \<open>
  \<open>TTSResult\<close>, as the code uses it: \<open>audio\<close>, \<open>srt\<close> and the optional \<open>partial\<close>. The
  request (\<open>Required<EdgeSchema>\<close>) and \<open>TTSParams\<close> share the five fields that
  \<open>generateTaskId\<close> hashes. The fields \<open>text\<close> and \<open>output\<close> are written \<open>text'\<close> and
  \<open>output'\<close>.
\<close>

record TTSResult =
  audio :: string
  srt :: string
  partial :: "bool option"

record voiceParams =
  text' :: string
  pitch :: string
  voice :: string
  rate :: string
  volume :: string

record EdgeSchema = voiceParams +
  useLLM :: bool

record TTSParams = voiceParams +
  output' :: string

text \<open>
  The \<open>result\<close> field of the language model's reply, as far as \<open>generateWithLLM\<close> looks at
  it: absent or falsy, an array, or anything else.
\<close>

datatype llmResult = NoResult | ArrayResult | OtherResult

text \<open>
  The collaborators of the orchestrator whose code is outside the files under study,
  as parameters: the two configured paths, language detection (\<open>franc\<close>), the text
  splitter (which returns \<open>length\<close> and \<open>segments\<close>), \<open>generateId\<close> (which reads the
  clock), the cache key \<open>taskManager.generateTaskId\<close>, one synthesis session
  (\<open>generateSingleVoice\<close>), \<open>generateSrt\<close> (\<open>None\<close> when it succeeds), the prompt, the chat
  completion (\<open>fetchLLMSegment\<close> up to the parsed reply), \<open>runEdgeTTS\<close>, and the run of
  the transcoder on a list of files.
\<close>

record collaborators =
  AUDIO_DIR :: string
  STATIC_DOMAIN :: string
  franc :: "string \<Rightarrow> string"
  splitText :: "string \<Rightarrow> nat \<times> string list"
  generateId :: "string \<Rightarrow> string \<Rightarrow> string"
  generateTaskId :: "voiceParams \<Rightarrow> string"
  generateSingleVoice :: "TTSParams \<Rightarrow> error + TTSResult"
  generateSrt :: "string \<Rightarrow> string \<Rightarrow> error option"
  getPrompt :: "string \<Rightarrow> string \<Rightarrow> string"
  fetchLLMSegment :: "string \<Rightarrow> error + llmResult"
  runEdgeTTS :: "llmResult \<Rightarrow> string \<Rightarrow> error + TTSResult"
  ffmpegConcat :: "string list \<Rightarrow> string \<Rightarrow> error option"

text \<open>A job of the batch: not started, waiting for its synthesis, or terminal with its \<open>success\<close> flag.\<close>

datatype taskPhase = Waiting | Running | Done bool

text \<open>
  Modelled from the spec: the cache \<open>audioCacheInstance\<close> (\<open>getAudio(key)\<close> gives the prior
  result or none, \<open>setAudio(key, result)\<close> persists it) is the map \<open>cache\<close>; of the stored
  object \<open>{...params, ...result}\<close> the map keeps the result.

  The rest of the state: the number of synthesis sessions opened and of chat
  completions requested; the calls of \<open>task.updateProgress\<close>, each with the number of jobs
  that were terminal when it was made (the job that reports counted in); the variables
  \<open>fileList\<close> and \<open>handledLength\<close> of \<open>buildSegmentList\<close> and the phases of its jobs; and the
  lists of files that \<open>concatDirAudio\<close> and \<open>concatDirSrt\<close> consumed, in their order.
\<close>

record world =
  cache :: "string \<Rightarrow> TTSResult option"
  sessions :: nat
  llmRequests :: nat
  reports :: "(nat \<times> real) list"
  phases :: "taskPhase list"
  fileList :: "string list"
  handledLength :: nat
  audioInputs :: "string list option"
  subtitleInputs :: "string list option"

subsection \<open>Small functions\<close>

text \<open>\<open>s.replace(pattern, replacement)\<close> with a string pattern: the first occurrence only.\<close>

fun replaceFirst :: "string \<Rightarrow> string \<Rightarrow> string \<Rightarrow> string" where
  "replaceFirst pattern replacement [] = (if pattern = [] then replacement else [])"
| "replaceFirst pattern replacement (c # cs) =
     (if prefix pattern (c # cs) then replacement @ drop (length pattern) (c # cs)
      else c # replaceFirst pattern replacement cs)"

text \<open>\<open>s.trim()\<close>, for the white space that is a single byte.\<close>

definition isWhiteSpace :: "char \<Rightarrow> bool" where
  "isWhiteSpace c = (c \<in> set [CHR '' '', CHR 0x09, CHR 0x0A, CHR 0x0B, CHR 0x0C, CHR 0x0D])"

definition jsTrim :: "string \<Rightarrow> string" where
  "jsTrim s = rev (dropWhile isWhiteSpace (rev (dropWhile isWhiteSpace s)))"

text \<open>\<open>getLangConfig\<close>: the detected language, with \<open>cmn\<close> renamed.\<close>

definition getLangConfig :: "collaborators \<Rightarrow> string \<Rightarrow> string" where
  "getLangConfig env txt = (let detected = franc env txt in if detected = ''cmn'' then ''zh'' else detected)"

text \<open>\<open>validateLangAndVoice\<close>: \<open>Some\<close> of the error it throws.\<close>

definition validateLangAndVoice :: "string \<Rightarrow> string \<Rightarrow> error option" where
  "validateLangAndVoice language voiceName =
     (if language \<noteq> ''eng'' \<and> prefix ''en'' voiceName then Some ENG_MODEL_INVALID_TEXT else None)"

text \<open>
  \<open>validateTTSResult\<close>: reading \<open>result.audio\<close> of \<open>undefined\<close> throws a \<open>TypeError\<close>; an
  empty \<open>audio\<close> is the incomplete result; otherwise the result passes.
\<close>

definition validateTTSResult :: "TTSResult option \<Rightarrow> string \<Rightarrow> error + TTSResult" where
  "validateTTSResult result segmentId =
     (case result of
        None \<Rightarrow> Inl TypeError
      | Some r \<Rightarrow> if audio r = [] then Inl (INCOMPLETE_RESULT segmentId) else Inr r)"

text \<open>The cache key of a request or of a segment: \<open>generateTaskId({ text, pitch, voice, rate, volume })\<close>.\<close>

definition cacheKeyOf :: "collaborators \<Rightarrow> 'a voiceParams_scheme \<Rightarrow> string" where
  "cacheKeyOf env p =
     generateTaskId env
       \<lparr>text' = text' p, pitch = pitch p, voice = voice p, rate = rate p, volume = volume p\<rparr>"

text \<open>
  \<open>getProgress\<close>: \<open>Number(((handledLength / length) * 100).toFixed(2))\<close>, the percentage
  rounded to two decimals (a tie goes up), computed on exact numbers.
\<close>

definition getProgress :: "nat \<Rightarrow> nat \<Rightarrow> real" where
  "getProgress handled len =
     real_of_int \<lfloor>real handled / real len * 100 * 100 + 1 / 2\<rfloor> / 100"

fun isDone :: "taskPhase \<Rightarrow> bool" where
  "isDone (Done success) = True"
| "isDone _ = False"

definition terminalJobs :: "taskPhase list \<Rightarrow> nat" where
  "terminalJobs ps = length (filter isDone ps)"

subsection \<open>A single segment\<close>

text \<open>\<open>buildSegment(segment, params, dir)\<close>; the segment is its \<open>id\<close> and its \<open>text\<close>.\<close>

definition buildSegment ::
  "collaborators \<Rightarrow> string \<Rightarrow> string \<Rightarrow> TTSParams \<Rightarrow> string \<Rightarrow> world \<Rightarrow>
   (error + TTSResult) \<times> world" where
  "buildSegment env segmentId segmentText params dir s =
     (let output = pathResolve (AUDIO_DIR env) (pathJoin dir segmentId);
          s1 = s\<lparr>sessions := sessions s + 1\<rparr>
      in case generateSingleVoice env
                \<lparr>text' = segmentText, pitch = pitch params, voice = voice params,
                 rate = rate params, volume = volume params, output' = output\<rparr> of
           Inl e \<Rightarrow> (Inl e, s1)
         | Inr result \<Rightarrow>
             (case generateSrt env (output @ ''.json'') (replaceFirst ''.mp3'' ''.srt'' output) of
                Some e \<Rightarrow> (Inl e, s1)
              | None \<Rightarrow>
                  (Inr \<lparr>audio = STATIC_DOMAIN env @ ''/'' @ pathJoin dir segmentId,
                        srt = STATIC_DOMAIN env @ ''/'' @
                              pathJoin dir (replaceFirst ''.mp3'' ''.srt'' segmentId),
                        partial = None\<rparr>, s1)))"

subsection \<open>Several segments\<close>

text \<open>
  The body of one task of \<open>buildSegmentList\<close>, cut at its first \<open>await\<close> of a remote call.
  \<open>startTask\<close> runs it up to there: on a cache hit the cached audio is pushed and the
  task is done; otherwise a session is opened. \<open>finishTask\<close> runs the rest when the
  session ends: a failure is the task's failure; a result is pushed, counted, reported
  (when there is a task with a sink) and cached.
\<close>

definition startTask ::
  "collaborators \<Rightarrow> TTSParams list \<Rightarrow> nat \<Rightarrow> world \<Rightarrow> world" where
  "startTask env segments index s =
     (case cache s (cacheKeyOf env (segments ! index)) of
        Some hit \<Rightarrow>
          s\<lparr>fileList := fileList s @ [audio hit], phases := (phases s)[index := Done True]\<rparr>
      | None \<Rightarrow>
          s\<lparr>sessions := sessions s + 1, phases := (phases s)[index := Running]\<rparr>)"

definition finishTask ::
  "collaborators \<Rightarrow> bool \<Rightarrow> string \<Rightarrow> TTSParams list \<Rightarrow> nat \<Rightarrow> world \<Rightarrow> world" where
  "finishTask env task tmpDirPath segments index s =
     (let segment = segments ! index
      in case generateSingleVoice env (segment\<lparr>output' := splitOutput tmpDirPath index\<rparr>) of
           Inl e \<Rightarrow> s\<lparr>phases := (phases s)[index := Done False]\<rparr>
         | Inr result \<Rightarrow>
             (let ps = (phases s)[index := Done True];
                  handled = handledLength s + 1
              in s\<lparr>fileList := fileList s @ [audio result],
                    handledLength := handled,
                    reports := reports s @
                      (if task then [(terminalJobs ps, getProgress handled (length segments))]
                       else []),
                    cache := (cache s)(cacheKeyOf env segment \<mapsto> result),
                    phases := ps\<rparr>))"

text \<open>
  Modelled from the spec: \<open>MapLimitController.run\<close> runs the tasks interleaved, a failure
  of one is recorded at its position and stops no other, and it returns when every task
  is terminal. One step of the interleaving moves the task \<open>index\<close> to its next phase. A
  \<open>schedule\<close> is any sequence of such steps; what it leaves unfinished is then run to the
  end in the order of the indices. The bound on the number of tasks in flight and the
  order of admission only exclude schedules, so every run of the controller is the run
  of some schedule.
\<close>

definition stepTask ::
  "collaborators \<Rightarrow> bool \<Rightarrow> string \<Rightarrow> TTSParams list \<Rightarrow> nat \<Rightarrow> world \<Rightarrow> world" where
  "stepTask env task tmpDirPath segments index s =
     (if index < length segments \<and> index < length (phases s) then
        (case phases s ! index of
           Waiting \<Rightarrow> startTask env segments index s
         | Running \<Rightarrow> finishTask env task tmpDirPath segments index s
         | Done success \<Rightarrow> s)
      else s)"

definition runConcurrentTasks ::
  "collaborators \<Rightarrow> bool \<Rightarrow> string \<Rightarrow> TTSParams list \<Rightarrow> nat list \<Rightarrow> world \<Rightarrow> world" where
  "runConcurrentTasks env task tmpDirPath segments schedule s =
     fold (stepTask env task tmpDirPath segments)
       (schedule @ concat (map (\<lambda>index. [index, index]) [0..<length segments])) s"

text \<open>
  \<open>concatDirAudio\<close> and \<open>concatDirSrt\<close>: the sorted lists are what the transcoder and the
  subtitle merge read, in this order. Writing the list file, reading the subtitle files
  and merging them are taken to succeed, as is \<open>ensureDir\<close> in \<open>buildSegmentList\<close>.
\<close>

definition concatDirAudio ::
  "collaborators \<Rightarrow> string list \<Rightarrow> string \<Rightarrow> world \<Rightarrow> error option \<times> world" where
  "concatDirAudio env files outputFile s =
     (let mp3Files = sortAudioDir files ''.mp3''
      in if mp3Files = [] then (Some NoMP3Files, s)
         else (ffmpegConcat env mp3Files outputFile, s\<lparr>audioInputs := Some mp3Files\<rparr>))"

definition concatDirSrt ::
  "collaborators \<Rightarrow> string list \<Rightarrow> string \<Rightarrow> string \<Rightarrow> world \<Rightarrow> error option \<times> world" where
  "concatDirSrt env files outputFile inputDir s =
     (let jsonFiles = sortAudioDir (map (\<lambda>file. file @ ''.json'') files) ''.json''
      in if jsonFiles = [] then (Some NoJSONFiles, s)
         else (generateSrt env (pathResolve inputDir ''all_splits.mp3.json'')
                 (replaceFirst ''.mp3'' ''.srt'' outputFile),
               s\<lparr>subtitleInputs := Some jsonFiles\<rparr>))"

text \<open>\<open>buildSegmentList(segment, segments, task)\<close>; \<open>task\<close> says whether a task with a sink was given.\<close>

definition buildSegmentList ::
  "collaborators \<Rightarrow> bool \<Rightarrow> nat list \<Rightarrow> string \<Rightarrow> TTSParams list \<Rightarrow> world \<Rightarrow>
   (error + TTSResult) \<times> world" where
  "buildSegmentList env task schedule segmentId segments s =
     (let tmpDirPath = pathResolve (AUDIO_DIR env) (replaceFirst ''.mp3'' [] segmentId);
          s1 = runConcurrentTasks env task tmpDirPath segments schedule
                 (s\<lparr>phases := replicate (length segments) Waiting, fileList := [],
                    handledLength := 0\<rparr>);
          someFailed = (Done False \<in> set (phases s1));
          outputFile = pathResolve (AUDIO_DIR env) segmentId
      in case concatDirAudio env (fileList s1) outputFile s1 of
           (Some e, s2) \<Rightarrow> (Inl e, s2)
         | (None, s2) \<Rightarrow>
             (case concatDirSrt env (fileList s2) outputFile tmpDirPath s2 of
                (Some e, s3) \<Rightarrow> (Inl e, s3)
              | (None, s3) \<Rightarrow>
                  (Inr \<lparr>audio = STATIC_DOMAIN env @ ''/'' @ segmentId,
                        srt = STATIC_DOMAIN env @ ''/'' @ replaceFirst ''.mp3'' ''.srt'' segmentId,
                        partial = Some someFailed\<rparr>,
                   s3\<lparr>reports := reports s3 @
                        (if task then [(terminalJobs (phases s3), 100)] else [])\<rparr>)))"

subsection \<open>With and without the language model\<close>

definition generateWithoutLLM ::
  "collaborators \<Rightarrow> bool \<Rightarrow> nat list \<Rightarrow> string \<Rightarrow> string \<Rightarrow> TTSParams \<Rightarrow> world \<Rightarrow>
   (error + TTSResult) \<times> world" where
  "generateWithoutLLM env task schedule segmentId segmentText params s =
     (case splitText env (text' params) of
        (len, segments) \<Rightarrow>
          if len \<le> 1 then buildSegment env segmentId segmentText params [] s
          else buildSegmentList env task schedule segmentId
                 (map (\<lambda>segment. params\<lparr>text' := segment\<rparr>) segments) s)"

text \<open>
  \<open>generateWithLLM\<close>: its multi-segment branch only logs, so the function returns
  \<open>undefined\<close> there (\<open>Inr None\<close>).
\<close>

definition generateWithLLM ::
  "collaborators \<Rightarrow> string \<Rightarrow> string \<Rightarrow> string \<Rightarrow> world \<Rightarrow>
   (error + TTSResult option) \<times> world" where
  "generateWithLLM env segmentId segmentText language s =
     (case splitText env (jsTrim segmentText) of
        (len, segments) \<Rightarrow>
          if len \<le> 1 then
            (let s1 = s\<lparr>llmRequests := llmRequests s + 1\<rparr>
             in case fetchLLMSegment env (getPrompt env language segmentText) of
                  Inl e \<Rightarrow> (Inl e, s1)
                | Inr llmResponse \<Rightarrow>
                    if llmResponse = OtherResult then (Inl LLMResponseNotArray, s1)
                    else (case runEdgeTTS env llmResponse (jsTrim segmentText) of
                            Inl e \<Rightarrow> (Inl e, s1\<lparr>sessions := sessions s1 + 1\<rparr>)
                          | Inr r \<Rightarrow> (Inr (Some r), s1\<lparr>sessions := sessions s1 + 1\<rparr>)))
          else (Inr None, s))"

subsection \<open>\<open>generateTTS\<close>\<close>

text \<open>
  \<open>generateTTS(params, task)\<close>. \<open>schedule\<close> fixes the interleaving of the segment jobs,
  should the request reach \<open>buildSegmentList\<close>.
\<close>

definition generateTTS ::
  "collaborators \<Rightarrow> bool \<Rightarrow> nat list \<Rightarrow> EdgeSchema \<Rightarrow> world \<Rightarrow> (error + TTSResult) \<times> world" where
  "generateTTS env task schedule params s =
     (let cacheKey = cacheKeyOf env params
      in case cache s cacheKey of
           Some hit \<Rightarrow> (Inr hit, s)
         | None \<Rightarrow>
             (let segmentId = generateId env (voice params) (text' params);
                  language = getLangConfig env (text' params)
              in case validateLangAndVoice language (voice params) of
                   Some e \<Rightarrow> (Inl e, s)
                 | None \<Rightarrow>
                     (case (if useLLM params
                            then generateWithLLM env segmentId (text' params) language s
                            else (case generateWithoutLLM env task schedule segmentId (text' params)
                                         \<lparr>text' = text' params, pitch = pitch params,
                                          voice = voice params, rate = rate params,
                                          volume = volume params, output' = segmentId\<rparr> s of
                                    (Inl e, s1) \<Rightarrow> (Inl e, s1)
                                  | (Inr r, s1) \<Rightarrow> (Inr (Some r), s1))) of
                        (Inl e, s1) \<Rightarrow> (Inl e, s1)
                      | (Inr result, s1) \<Rightarrow>
                          (case validateTTSResult result segmentId of
                             Inl e \<Rightarrow> (Inl e, s1)
                           | Inr r \<Rightarrow>
                               if partial r = Some True then (Inr r, s1)
                               else (Inr r, s1\<lparr>cache := (cache s1)(cacheKey \<mapsto> r)\<rparr>)))))"

subsection \<open>A sample installation\<close>

text \<open>
  Collaborators for the examples: the text \<open>A.B.C.\<close> splits into three segments, the
  texts \<open>C.A.\<close> and \<open>A.C.\<close> into two, and every other text into one; the detected language is \<open>cmn\<close>; the cache key is the text and the
  voice joined; a session writes the file it is asked for, except that the segment \<open>B.\<close>
  times out; nothing else fails.
\<close>

definition exampleEnv :: collaborators where
  "exampleEnv =
     \<lparr>AUDIO_DIR = ''/audio'', STATIC_DOMAIN = [],
      franc = (\<lambda>txt. ''cmn''),
      splitText =
        (\<lambda>txt. if txt = ''A.B.C.'' then (3, [''A.'', ''B.'', ''C.''])
                else if txt = ''C.A.'' then (2, [''C.'', ''A.''])
                else if txt = ''A.C.'' then (2, [''A.'', ''C.''])
                else (1, [txt])),
      generateId = (\<lambda>voiceName txt. ''id.mp3''),
      generateTaskId = (\<lambda>p. text' p @ ''|'' @ voice p),
      generateSingleVoice =
        (\<lambda>p. if text' p = ''B.'' then Inl (Thrown ''Timed out'')
              else Inr \<lparr>audio = output' p, srt = replaceFirst ''.mp3'' ''.srt'' (output' p),
                        partial = None\<rparr>),
      generateSrt = (\<lambda>jsonPath srtPath. None),
      getPrompt = (\<lambda>language txt. txt),
      fetchLLMSegment = (\<lambda>prompt. Inr ArrayResult),
      runEdgeTTS = (\<lambda>llmResponse txt. Inr \<lparr>audio = ''/llm.mp3'', srt = ''/llm.srt'', partial = None\<rparr>),
      ffmpegConcat = (\<lambda>files outputFile. None)\<rparr>"

definition exampleRequest :: "string \<Rightarrow> string \<Rightarrow> bool \<Rightarrow> EdgeSchema" where
  "exampleRequest txt voiceName llm =
     \<lparr>text' = txt, pitch = ''default'', voice = voiceName, rate = ''default'',
      volume = ''default'', useLLM = llm\<rparr>"

definition emptyWorld :: world where
  "emptyWorld =
     \<lparr>cache = Map.empty, sessions = 0, llmRequests = 0, reports = [], phases = [],
      fileList = [], handledLength = 0, audioInputs = None, subtitleInputs = None\<rparr>"

definition cachedWorld :: "string \<Rightarrow> world" where
  "cachedWorld key =
     emptyWorld\<lparr>cache := [key \<mapsto> \<lparr>audio = ''/old.mp3'', srt = ''/old.srt'', partial = None\<rparr>]\<rparr>"

section \<open>Notions for the statements about a batch\<close>

text \<open>
  The directory of the batch's segment files, as \<open>buildSegmentList\<close> computes it; whether
  the session of the segment \<open>index\<close> succeeds, and the indices of the segments for which
  it does, in ascending order.
\<close>

definition tmpDirPathOf :: "collaborators \<Rightarrow> string \<Rightarrow> string" where
  "tmpDirPathOf env segmentId = pathResolve (AUDIO_DIR env) (replaceFirst ''.mp3'' [] segmentId)"

definition synthesised :: "collaborators \<Rightarrow> string \<Rightarrow> TTSParams list \<Rightarrow> nat \<Rightarrow> bool" where
  "synthesised env tmpDirPath segments index =
     (case generateSingleVoice env ((segments ! index)\<lparr>output' := splitOutput tmpDirPath index\<rparr>) of
        Inl e \<Rightarrow> False
      | Inr result \<Rightarrow> True)"

definition survivors :: "collaborators \<Rightarrow> string \<Rightarrow> TTSParams list \<Rightarrow> nat list" where
  "survivors env tmpDirPath segments =
     filter (synthesised env tmpDirPath segments) [0..<length segments]"

text \<open>
  What holds of the state between the steps of a batch none of whose segments is found
  in the cache: the files pushed so far are the files of the jobs that succeeded, each
  once, and the key of a job that has not succeeded is not in the cache.
\<close>

definition batchInv :: "collaborators \<Rightarrow> string \<Rightarrow> TTSParams list \<Rightarrow> world \<Rightarrow> bool" where
  "batchInv env tmpDirPath segments s =
     (length (phases s) = length segments \<and>
      (\<exists>js. fileList s = map (splitOutput tmpDirPath) js \<and> distinct js \<and>
            set js = {i. i < length segments \<and> phases s ! i = Done True}) \<and>
      (\<forall>i<length segments.
          (phases s ! i = Done True \<longrightarrow> synthesised env tmpDirPath segments i) \<and>
          (phases s ! i = Done False \<longrightarrow> \<not> synthesised env tmpDirPath segments i) \<and>
          (phases s ! i \<noteq> Done True \<longrightarrow> cache s (cacheKeyOf env (segments ! i)) = None)))"


text \<open>The segments of the sample request, as \<open>generateWithoutLLM\<close> builds them.\<close>

definition exampleSegments :: "TTSParams list" where
  "exampleSegments =
     map (\<lambda>segment. \<lparr>text' = segment, pitch = ''default'', voice = ''zh-CN-XiaoyiNeural'',
                      rate = ''default'', volume = ''default'', output' = ''id.mp3''\<rparr>)
       [''A.'', ''B.'', ''C.'']"

chapter \<open>Properties\<close>

section \<open>Subtitle reconstruction: what one scan consumes\<close>






subsection \<open>Claim C1\<close>




section \<open>The protocol client: cues, settlement and frames\<close>

subsection \<open>Cues from metadata frames\<close>


















subsection \<open>How a turn settles\<close>




subsection \<open>The frames sent\<close>














section \<open>File names: numbered files sort by their number\<close>

lemma of_char_digitChar: "d < 10 \<Longrightarrow> (of_char (digitChar d) :: nat) = 48 + d"
  by (simp add: digitChar_def)

lemma isDigit_digitChar: "d < 10 \<Longrightarrow> isDigit (digitChar d)"
  by (simp add: isDigit_def of_char_digitChar)

lemma showNat_digits: "list_all isDigit (showNat n)"
proof (induction n rule: showNat.induct)
  case (1 n)
  show ?case
  proof (cases "n < 10")
    case True
    then show ?thesis by (simp add: showNat.simps [of n] isDigit_digitChar)
  next
    case False
    with 1 show ?thesis by (simp add: showNat.simps [of n] isDigit_digitChar)
  qed
qed

lemma digitsValue_snoc: "digitsValue (s @ [c]) = 10 * digitsValue s + (of_char c - 48)"
  by (simp add: digitsValue_def)

lemma digitsValue_showNat: "digitsValue (showNat n) = n"
proof (induction n rule: showNat.induct)
  case (1 n)
  show ?case
  proof (cases "n < 10")
    case True
    then show ?thesis by (simp add: showNat.simps [of n] digitsValue_def of_char_digitChar)
  next
    case False
    with 1 have "digitsValue (showNat (n div 10)) = n div 10" by simp
    with False show ?thesis
      by (simp add: showNat.simps [of n] digitsValue_snoc of_char_digitChar)
  qed
qed

lemma jsNumber_showNat: "jsNumber (showNat n) = Num (int n)"
  by (simp add: jsNumber_def showNat_digits digitsValue_showNat)

lemma digit_not_special:
  "isDigit c \<Longrightarrow> c \<noteq> CHR ''/'' \<and> c \<noteq> CHR ''.'' \<and> c \<noteq> CHR ''_''"
  by (auto simp: isDigit_def)

lemma showNat_plain:
  "c \<in> set (showNat n) \<Longrightarrow> c \<noteq> CHR ''/'' \<and> c \<noteq> CHR ''.'' \<and> c \<noteq> CHR ''_''"
  using showNat_digits [of n] digit_not_special by (auto simp: list_all_iff)

lemma takeWhile_until:
  "(\<And>c. c \<in> set xs \<Longrightarrow> P c) \<Longrightarrow> \<not> P y \<Longrightarrow> takeWhile P (xs @ y # ys) = xs"
  by (induction xs) simp_all

lemma basename_splitOutput:
  "basename (splitOutput dir i) = showNat (i + 1) @ ''_splits.mp3''"
proof -
  let ?n = "showNat (i + 1)"
  have r: "rev (splitOutput dir i) = (rev ''_splits.mp3'' @ rev ?n) @ CHR ''/'' # rev dir"
    by (simp add: splitOutput_def pathResolve_def)
  have "takeWhile (\<lambda>c. c \<noteq> CHR ''/'') ((rev ''_splits.mp3'' @ rev ?n) @ CHR ''/'' # rev dir) =
      rev ''_splits.mp3'' @ rev ?n"
    by (rule takeWhile_until) (use showNat_plain [of _ "i + 1"] in auto)
  with r show ?thesis by (simp add: basename_def)
qed

lemma basename_json:
  "basename (splitOutput dir i @ ''.json'') = showNat (i + 1) @ ''_splits.mp3.json''"
proof -
  let ?n = "showNat (i + 1)"
  have r: "rev (splitOutput dir i @ ''.json'') =
      (rev ''_splits.mp3.json'' @ rev ?n) @ CHR ''/'' # rev dir"
    by (simp add: splitOutput_def pathResolve_def)
  have "takeWhile (\<lambda>c. c \<noteq> CHR ''/'') ((rev ''_splits.mp3.json'' @ rev ?n) @ CHR ''/'' # rev dir) =
      rev ''_splits.mp3.json'' @ rev ?n"
    by (rule takeWhile_until) (use showNat_plain [of _ "i + 1"] in auto)
  with r show ?thesis by (simp add: basename_def)
qed

lemma showNat_nonempty: "showNat n \<noteq> []"
  by (simp add: showNat.simps [of n])

lemma extname_splitOutput: "extname (splitOutput dir i) = ''.mp3''"
proof -
  from showNat_nonempty [of "i + 1"] have "length (showNat (i + 1)) \<noteq> 0" by simp
  then show ?thesis
    by (simp add: extname_def basename_splitOutput Let_def)
qed

lemma extname_json: "extname (splitOutput dir i @ ''.json'') = ''.json''"
proof -
  from showNat_nonempty [of "i + 1"] have "length (showNat (i + 1)) \<noteq> 0" by simp
  then show ?thesis
    by (simp add: extname_def basename_json Let_def)
qed

lemma beforeUnderscore_showNat: "beforeUnderscore (showNat n @ CHR ''_'' # rest) = showNat n"
  unfolding beforeUnderscore_def
  by (rule takeWhile_until) (use showNat_plain [of _ n] in auto)

lemma namePrefix_splitOutput: "namePrefix (splitOutput dir i) = Num (int (i + 1))"
  by (simp add: namePrefix_def pathName_def basename_splitOutput extname_splitOutput
      beforeUnderscore_showNat jsNumber_showNat Let_def)

lemma namePrefix_json: "namePrefix (splitOutput dir i @ ''.json'') = Num (int (i + 1))"
  by (simp add: namePrefix_def pathName_def basename_json extname_json
      beforeUnderscore_showNat jsNumber_showNat Let_def)

lemma toLowerCase_mp3: "toLowerCase ''.mp3'' = ''.mp3''" "toLowerCase ''.json'' = ''.json''"
  by (simp_all add: toLowerCase_def)

text \<open>Sorting files whose names carry numbers.\<close>

lemma insertSorted_numbered:
  assumes "\<And>i. namePrefix (f i) = Num (int (i + 1))"
  shows "insertSorted notAfter (f i) (map f js) = map f (insort i js)"
  by (induction js) (simp_all add: notAfter_def compareFn_def assms)

lemma jsSort_numbered:
  assumes "\<And>i. namePrefix (f i) = Num (int (i + 1))"
  shows "jsSort notAfter (map f js) = map f (sort js)"
proof -
  have "foldr (insertSorted notAfter) (map f js) [] = map f (foldr insort js [])"
    by (induction js) (simp_all add: insertSorted_numbered [of f, OF assms])
  then show ?thesis by (simp add: jsSort_def sort_key_def)
qed

lemma sortAudioDir_mp3:
  "sortAudioDir (map (splitOutput dir) js) ''.mp3'' = map (splitOutput dir) (sort js)"
proof -
  have "filter (\<lambda>file. toLowerCase (extname file) = ''.mp3'') (map (splitOutput dir) js) =
      map (splitOutput dir) js"
    by (simp add: extname_splitOutput toLowerCase_mp3 filter_map o_def)
  then show ?thesis
    using jsSort_numbered [of "splitOutput dir" js] namePrefix_splitOutput
    by (simp add: sortAudioDir_def)
qed

lemma sortAudioDir_json:
  "sortAudioDir (map (\<lambda>file. file @ ''.json'') (map (splitOutput dir) js)) ''.json'' =
     map (\<lambda>i. splitOutput dir i @ ''.json'') (sort js)"
proof -
  have m: "map (\<lambda>file. file @ ''.json'') (map (splitOutput dir) js) =
      map (\<lambda>i. splitOutput dir i @ ''.json'') js"
    by simp
  have "filter (\<lambda>file. toLowerCase (extname file) = ''.json'')
        (map (\<lambda>i. splitOutput dir i @ ''.json'') js) =
      map (\<lambda>i. splitOutput dir i @ ''.json'') js"
    by (simp add: extname_json toLowerCase_mp3 filter_map o_def)
  then show ?thesis
    using jsSort_numbered [of "\<lambda>i. splitOutput dir i @ ''.json''" js] namePrefix_json
    unfolding m by (simp add: sortAudioDir_def)
qed

section \<open>The orchestrator: cache, validation and single segments\<close>

subsection \<open>What the segment jobs leave alone\<close>








subsection \<open>Claim C2\<close>

lemma cacheKeyOf_segment:
  "cacheKeyOf env
     (\<lparr>text' = text' params, pitch = pitch params, voice = voice params, rate = rate params,
       volume = volume params, output' = out\<rparr>\<lparr>text' := segment\<rparr>) =
   cacheKeyOf env (params\<lparr>text' := segment\<rparr>)"
  by (simp add: cacheKeyOf_def)



subsection \<open>Claims C5, C6 and C10\<close>

text \<open>
  C5, amended: on a cache miss, if the detected language is not \<open>eng\<close> and the voice name
  starts with \<open>en\<close>, \<open>generateTTS\<close> throws \<open>English model cannot process non-English text\<close>
  and the state is the one before the call: no session was opened, no chat completion
  requested, nothing cached.
\<close>

theorem english_voice_rejected:
  assumes "cache s (cacheKeyOf env params) = None"
    and "getLangConfig env (text' params) \<noteq> ''eng''"
    and "prefix ''en'' (voice params)"
  shows "generateTTS env task schedule params s = (Inl ENG_MODEL_INVALID_TEXT, s)"
  using assms by (simp add: generateTTS_def validateLangAndVoice_def Let_def)





text \<open>
  C5, as stated, fails when the cache holds an entry for the request: the cache is read
  before the language is detected, and the cached result is returned.
\<close>

theorem english_voice_rejected_counterexample:
  "getLangConfig exampleEnv ''Bonjour'' \<noteq> ''eng'' \<and> prefix ''en'' ''en-US-AriaNeural'' \<and>
   fst (generateTTS exampleEnv True [] (exampleRequest ''Bonjour'' ''en-US-AriaNeural'' False)
          (cachedWorld ''Bonjour|en-US-AriaNeural'')) =
     Inr \<lparr>audio = ''/old.mp3'', srt = ''/old.srt'', partial = None\<rparr>"
  by code_simp

theorem english_voice_rejected_witness:
  "generateTTS exampleEnv True [] (exampleRequest ''Bonjour'' ''en-US-AriaNeural'' False) emptyWorld =
     (Inl ENG_MODEL_INVALID_TEXT, emptyWorld) \<and>
   sessions emptyWorld = 0 \<and> llmRequests emptyWorld = 0"
proof -
  let ?req = "exampleRequest ''Bonjour'' ''en-US-AriaNeural'' False"
  have miss: "cache emptyWorld (cacheKeyOf exampleEnv ?req) = None"
    by (simp add: emptyWorld_def)
  have lang: "getLangConfig exampleEnv (text' ?req) \<noteq> ''eng''"
    by code_simp
  have en: "prefix ''en'' (voice ?req)"
    by code_simp
  from english_voice_rejected [OF miss lang en] show ?thesis
    by (simp add: emptyWorld_def)
qed




section \<open>The segment jobs of a batch\<close>

lemma stepTask_cases:
  obtains
    (skip) "stepTask env task dir segments index s = s"
  | (hit) c where "index < length segments" "index < length (phases s)"
      "phases s ! index = Waiting" "cache s (cacheKeyOf env (segments ! index)) = Some c"
      "stepTask env task dir segments index s =
         s\<lparr>fileList := fileList s @ [audio c], phases := (phases s)[index := Done True]\<rparr>"
  | (miss) "index < length segments" "index < length (phases s)"
      "phases s ! index = Waiting" "cache s (cacheKeyOf env (segments ! index)) = None"
      "stepTask env task dir segments index s =
         s\<lparr>sessions := sessions s + 1, phases := (phases s)[index := Running]\<rparr>"
  | (failed) e where "index < length segments" "index < length (phases s)"
      "phases s ! index = Running"
      "generateSingleVoice env ((segments ! index)\<lparr>output' := splitOutput dir index\<rparr>) = Inl e"
      "stepTask env task dir segments index s = s\<lparr>phases := (phases s)[index := Done False]\<rparr>"
  | (succeeded) result where "index < length segments" "index < length (phases s)"
      "phases s ! index = Running"
      "generateSingleVoice env ((segments ! index)\<lparr>output' := splitOutput dir index\<rparr>) = Inr result"
      "stepTask env task dir segments index s =
         s\<lparr>fileList := fileList s @ [audio result],
           handledLength := handledLength s + 1,
           reports := reports s @
             (if task
              then [(terminalJobs ((phases s)[index := Done True]),
                     getProgress (handledLength s + 1) (length segments))]
              else []),
           cache := (cache s)(cacheKeyOf env (segments ! index) \<mapsto> result),
           phases := (phases s)[index := Done True]\<rparr>"
proof (cases "index < length segments \<and> index < length (phases s)")
  case False
  then have "stepTask env task dir segments index s = s" by (auto simp: stepTask_def)
  then show ?thesis by (rule skip)
next
  case inb: True
  show ?thesis
  proof (cases "phases s ! index")
    case Waiting
    show ?thesis
    proof (cases "cache s (cacheKeyOf env (segments ! index))")
      case None
      with inb Waiting show ?thesis
        by (intro miss) (simp_all add: stepTask_def startTask_def)
    next
      case (Some c)
      with inb Waiting show ?thesis
        by (intro hit [of c]) (simp_all add: stepTask_def startTask_def)
    qed
  next
    case Running
    show ?thesis
    proof (cases "generateSingleVoice env ((segments ! index)\<lparr>output' := splitOutput dir index\<rparr>)")
      case (Inl e)
      with inb Running show ?thesis
        by (intro failed [of e]) (simp_all add: stepTask_def finishTask_def)
    next
      case (Inr result)
      with inb Running show ?thesis
        by (intro succeeded [of result]) (simp_all add: stepTask_def finishTask_def Let_def)
    qed
  next
    case (Done success)
    with inb have "stepTask env task dir segments index s = s" by (simp add: stepTask_def)
    then show ?thesis by (rule skip)
  qed
qed

subsection \<open>Every job ends\<close>

lemma stepTask_length: "length (phases (stepTask env task dir segments index s)) = length (phases s)"
  by (cases rule: stepTask_cases [of env task dir segments index s]) simp_all

lemma stepTask_keeps_done:
  "isDone (phases s ! j) \<Longrightarrow> isDone (phases (stepTask env task dir segments index s) ! j)"
  by (cases rule: stepTask_cases [of env task dir segments index s])
     (auto simp: nth_list_update)

lemma stepTask_running_done:
  assumes "index < length segments" "index < length (phases s)" "phases s ! index = Running"
  shows "isDone (phases (stepTask env task dir segments index s) ! index)"
  using assms
  by (simp add: stepTask_def finishTask_def Let_def split: sum.splits)

lemma stepTask_waiting_moves:
  assumes "index < length segments" "index < length (phases s)" "phases s ! index = Waiting"
  shows "phases (stepTask env task dir segments index s) ! index \<noteq> Waiting"
  using assms
  by (simp add: stepTask_def startTask_def split: option.splits)

lemma stepTask_twice_done:
  assumes "index < length segments" "index < length (phases s)"
  shows "isDone (phases (stepTask env task dir segments index
           (stepTask env task dir segments index s)) ! index)"
proof -
  let ?s1 = "stepTask env task dir segments index s"
  have l1: "index < length (phases ?s1)" using assms(2) by (simp add: stepTask_length)
  have "phases ?s1 ! index \<noteq> Waiting"
  proof (cases "phases s ! index")
    case Waiting
    with assms show ?thesis by (rule stepTask_waiting_moves)
  next
    case Running
    with assms have "isDone (phases ?s1 ! index)" by (rule stepTask_running_done)
    then show ?thesis by auto
  next
    case (Done success)
    then have "isDone (phases s ! index)" by simp
    then have "isDone (phases ?s1 ! index)" by (rule stepTask_keeps_done)
    then show ?thesis by auto
  qed
  then show ?thesis
  proof (cases "phases ?s1 ! index")
    case Running
    with assms(1) l1 show ?thesis by (rule stepTask_running_done)
  next
    case (Done success)
    then have "isDone (phases ?s1 ! index)" by simp
    then show ?thesis by (rule stepTask_keeps_done)
  qed simp
qed

lemma fold_stepTask_length:
  "length (phases (fold (stepTask env task dir segments) steps s)) = length (phases s)"
  by (induction steps arbitrary: s) (simp_all add: stepTask_length)

lemma fold_stepTask_keeps_done:
  "isDone (phases s ! j) \<Longrightarrow> isDone (phases (fold (stepTask env task dir segments) steps s) ! j)"
  by (induction steps arbitrary: s) (simp_all add: stepTask_keeps_done)

lemma drain_done:
  assumes "length (phases s) = length segments" "\<forall>i\<in>set indices. i < length segments"
  shows "\<forall>i\<in>set indices.
     isDone (phases (fold (stepTask env task dir segments)
        (concat (map (\<lambda>index. [index, index]) indices)) s) ! i)"
  using assms
proof (induction indices arbitrary: s)
  case Nil
  then show ?case by simp
next
  case (Cons index indices)
  let ?s2 = "stepTask env task dir segments index (stepTask env task dir segments index s)"
  let ?rest = "concat (map (\<lambda>index. [index, index]) indices)"
  from Cons.prems have inb: "index < length segments" "index < length (phases s)" by simp_all
  have len: "length (phases ?s2) = length segments"
    using Cons.prems(1) by (simp add: stepTask_length)
  from Cons.prems(2) have "\<forall>i\<in>set indices. i < length segments" by simp
  from Cons.IH [OF len this]
  have tail: "\<forall>i\<in>set indices. isDone (phases (fold (stepTask env task dir segments) ?rest ?s2) ! i)" .
  from stepTask_twice_done [OF inb]
  have "isDone (phases (fold (stepTask env task dir segments) ?rest ?s2) ! index)"
    by (rule fold_stepTask_keeps_done)
  with tail show ?case by simp
qed

lemma runConcurrentTasks_done:
  assumes "length (phases s) = length segments"
  shows "length (phases (runConcurrentTasks env task dir segments schedule s)) = length segments \<and>
     (\<forall>i<length segments. isDone (phases (runConcurrentTasks env task dir segments schedule s) ! i))"
proof -
  let ?s1 = "fold (stepTask env task dir segments) schedule s"
  have len: "length (phases ?s1) = length segments"
    using assms by (simp add: fold_stepTask_length)
  have "\<forall>i\<in>set [0..<length segments]. i < length segments" by simp
  from drain_done [OF len this, of env task dir] len
  show ?thesis by (simp add: runConcurrentTasks_def fold_stepTask_length)
qed


subsection \<open>The percentage\<close>





subsection \<open>Counting terminal jobs\<close>




subsection \<open>The reports of a batch\<close>



subsection \<open>Claim C9\<close>







subsection \<open>Claim C4\<close>

text \<open>The files of a batch.\<close>

lemma stepTask_batchInv:
  assumes names: "\<forall>p r. generateSingleVoice env p = Inr r \<longrightarrow> audio r = output' p"
    and keys: "distinct (map (cacheKeyOf env) segments)"
    and inv: "batchInv env dir segments s"
  shows "batchInv env dir segments (stepTask env task dir segments index s)"
proof -
  let ?n = "length segments"
  from inv obtain js where
    len: "length (phases s) = ?n" and
    fl: "fileList s = map (splitOutput dir) js" and
    dj: "distinct js" and
    sj: "set js = {i. i < ?n \<and> phases s ! i = Done True}" and
    ph: "\<forall>i<?n.
          (phases s ! i = Done True \<longrightarrow> synthesised env dir segments i) \<and>
          (phases s ! i = Done False \<longrightarrow> \<not> synthesised env dir segments i) \<and>
          (phases s ! i \<noteq> Done True \<longrightarrow> cache s (cacheKeyOf env (segments ! i)) = None)"
    by (auto simp: batchInv_def)
  show ?thesis
  proof (cases rule: stepTask_cases [of env task dir segments index s])
    case skip
    with inv show ?thesis by simp
  next
    case (hit c)
    with ph have False by auto
    then show ?thesis ..
  next
    case miss
    have "{i. i < ?n \<and> (phases s)[index := Running] ! i = Done True} =
        {i. i < ?n \<and> phases s ! i = Done True}"
      using miss(2,3) by (auto simp: nth_list_update)
    with miss len fl dj sj ph show ?thesis
      by (auto simp: batchInv_def nth_list_update)
  next
    case (failed e)
    have "{i. i < ?n \<and> (phases s)[index := Done False] ! i = Done True} =
        {i. i < ?n \<and> phases s ! i = Done True}"
      using failed(2,3) by (auto simp: nth_list_update)
    moreover from failed(4) have "\<not> synthesised env dir segments index"
      by (simp add: synthesised_def)
    ultimately show ?thesis
      using failed len fl dj sj ph
      by (auto simp: batchInv_def nth_list_update)
  next
    case (succeeded result)
    from names succeeded(4) have au: "audio result = splitOutput dir index" by auto
    from succeeded(4) have syn: "synthesised env dir segments index"
      by (simp add: synthesised_def)
    from succeeded(3) sj have notin: "index \<notin> set js" by auto
    have set': "{i. i < ?n \<and> (phases s)[index := Done True] ! i = Done True} =
        insert index {i. i < ?n \<and> phases s ! i = Done True}"
      using succeeded(1,2) by (auto simp: nth_list_update)
    have other: "cacheKeyOf env (segments ! i) \<noteq> cacheKeyOf env (segments ! index)"
      if "i < ?n" "i \<noteq> index" for i
      using keys that succeeded(1) by (auto simp: distinct_conv_nth)
    let ?s' = "s\<lparr>fileList := fileList s @ [audio result],
           handledLength := handledLength s + 1,
           reports := reports s @
             (if task
              then [(terminalJobs ((phases s)[index := Done True]),
                     getProgress (handledLength s + 1) (length segments))]
              else []),
           cache := (cache s)(cacheKeyOf env (segments ! index) \<mapsto> result),
           phases := (phases s)[index := Done True]\<rparr>"
    have "batchInv env dir segments ?s'"
      unfolding batchInv_def
    proof (intro conjI)
      show "length (phases ?s') = ?n" using len by simp
      show "\<exists>js. fileList ?s' = map (splitOutput dir) js \<and> distinct js \<and>
          set js = {i. i < ?n \<and> phases ?s' ! i = Done True}"
        using fl dj sj notin au set'
        by (intro exI [of _ "js @ [index]"]) simp
      show "\<forall>i<?n.
          (phases ?s' ! i = Done True \<longrightarrow> synthesised env dir segments i) \<and>
          (phases ?s' ! i = Done False \<longrightarrow> \<not> synthesised env dir segments i) \<and>
          (phases ?s' ! i \<noteq> Done True \<longrightarrow> cache ?s' (cacheKeyOf env (segments ! i)) = None)"
      proof (intro allI impI)
        fix i assume i: "i < ?n"
        show "(phases ?s' ! i = Done True \<longrightarrow> synthesised env dir segments i) \<and>
          (phases ?s' ! i = Done False \<longrightarrow> \<not> synthesised env dir segments i) \<and>
          (phases ?s' ! i \<noteq> Done True \<longrightarrow> cache ?s' (cacheKeyOf env (segments ! i)) = None)"
        proof (cases "i = index")
          case True
          with syn succeeded(2) show ?thesis by simp
        next
          case False
          with other [OF i] ph i show ?thesis by (simp add: nth_list_update)
        qed
      qed
    qed
    with succeeded(5) show ?thesis by simp
  qed
qed

lemma fold_stepTask_batchInv:
  assumes "\<forall>p r. generateSingleVoice env p = Inr r \<longrightarrow> audio r = output' p"
    and "distinct (map (cacheKeyOf env) segments)"
  shows "batchInv env dir segments s \<Longrightarrow>
     batchInv env dir segments (fold (stepTask env task dir segments) steps s)"
  by (induction steps arbitrary: s) (simp_all add: stepTask_batchInv [OF assms])

lemma survivors_of_batch:
  assumes inv: "batchInv env dir segments s"
    and ended: "\<forall>i<length segments. isDone (phases s ! i)"
  shows "\<exists>js. fileList s = map (splitOutput dir) js \<and> sort js = survivors env dir segments"
    and "Done False \<in> set (phases s) \<longleftrightarrow> length (survivors env dir segments) < length segments"
proof -
  let ?n = "length segments"
  from inv obtain js where
    len: "length (phases s) = ?n" and
    fl: "fileList s = map (splitOutput dir) js" and
    dj: "distinct js" and
    sj: "set js = {i. i < ?n \<and> phases s ! i = Done True}" and
    ph: "\<forall>i<?n.
          (phases s ! i = Done True \<longrightarrow> synthesised env dir segments i) \<and>
          (phases s ! i = Done False \<longrightarrow> \<not> synthesised env dir segments i)"
    by (auto simp: batchInv_def)
  have phase: "phases s ! i = Done (synthesised env dir segments i)" if "i < ?n" for i
  proof -
    from ended that obtain b where b: "phases s ! i = Done b"
      by (cases "phases s ! i") auto
    with ph that show ?thesis by (cases b) auto
  qed
  then have "set js = set (survivors env dir segments)"
    using sj by (auto simp: survivors_def)
  moreover have "sorted (survivors env dir segments)"
    unfolding survivors_def by (rule sorted_wrt_filter) simp
  moreover have "distinct (survivors env dir segments)"
    by (simp add: survivors_def)
  moreover have "sorted (sort js)" "distinct (sort js)" "set (sort js) = set js"
    using dj by simp_all
  ultimately have "sort js = survivors env dir segments"
    by (metis sorted_distinct_set_unique)
  with fl show "\<exists>js. fileList s = map (splitOutput dir) js \<and> sort js = survivors env dir segments"
    by blast
  have "Done False \<in> set (phases s) \<longleftrightarrow> (\<exists>i<?n. \<not> synthesised env dir segments i)"
    using phase len by (auto simp: in_set_conv_nth)
  also have "\<dots> \<longleftrightarrow> length (survivors env dir segments) < ?n"
  proof
    assume "\<exists>i<?n. \<not> synthesised env dir segments i"
    then obtain i where "i \<in> set [0..<?n]" "\<not> synthesised env dir segments i" by auto
    from length_filter_less [of i "[0..<?n]" "synthesised env dir segments", OF this]
    show "length (survivors env dir segments) < ?n"
      by (simp add: survivors_def)
  next
    assume less: "length (survivors env dir segments) < ?n"
    show "\<exists>i<?n. \<not> synthesised env dir segments i"
    proof (rule ccontr)
      assume "\<not> (\<exists>i<?n. \<not> synthesised env dir segments i)"
      then have "filter (synthesised env dir segments) [0..<?n] = [0..<?n]"
        by (simp add: filter_id_conv)
      with less show False by (simp add: survivors_def)
    qed
  qed
  finally show "Done False \<in> set (phases s) \<longleftrightarrow> length (survivors env dir segments) < ?n" .
qed

lemma buildSegmentList_consumes:
  fixes env task schedule segmentId segments s
  defines "dir \<equiv> tmpDirPathOf env segmentId"
  defines "s1 \<equiv> runConcurrentTasks env task dir segments schedule
      (s\<lparr>phases := replicate (length segments) Waiting, fileList := [], handledLength := 0\<rparr>)"
  defines "out \<equiv> buildSegmentList env task schedule segmentId segments s"
  assumes files: "fileList s1 = map (splitOutput dir) js"
  shows "(sort js = [] \<longrightarrow> fst out = Inl NoMP3Files) \<and>
     (sort js \<noteq> [] \<longrightarrow> audioInputs (snd out) = Some (map (splitOutput dir) (sort js))) \<and>
     (sort js \<noteq> [] \<and>
      ffmpegConcat env (map (splitOutput dir) (sort js)) (pathResolve (AUDIO_DIR env) segmentId) = None \<longrightarrow>
        subtitleInputs (snd out) = Some (map (\<lambda>i. splitOutput dir i @ ''.json'') (sort js))) \<and>
     (\<forall>r. fst out = Inr r \<longrightarrow> partial r = Some (Done False \<in> set (phases s1)))"
proof -
  have mp3: "sortAudioDir (fileList s1) ''.mp3'' = map (splitOutput dir) (sort js)"
    using files by (simp add: sortAudioDir_mp3)
  have json: "sortAudioDir (map (\<lambda>file. file @ ''.json'') (fileList s1)) ''.json'' =
      map (\<lambda>i. splitOutput dir i @ ''.json'') (sort js)"
    using files by (simp only: sortAudioDir_json)
  have s1: "runConcurrentTasks env task
      (pathResolve (AUDIO_DIR env) (replaceFirst ''.mp3'' [] segmentId)) segments schedule
      (s\<lparr>phases := replicate (length segments) Waiting, fileList := [], handledLength := 0\<rparr>) = s1"
    by (simp add: s1_def dir_def tmpDirPathOf_def)
  show ?thesis
    unfolding out_def buildSegmentList_def Let_def s1 concatDirAudio_def concatDirSrt_def
    using mp3 json
    by (auto split: option.splits)
qed

text \<open>
  The order of the merge for segments synthesised in the batch: in a batch whose
  segments have distinct keys, none of them in the cache, and whose sessions name the
  file they were asked to write (\<open>N_splits.mp3\<close> for the segment with index \<open>N - 1\<close>), the
  audio files that \<open>concatDirAudio\<close> hands to the transcoder are the files of the
  segments whose session succeeded, in ascending order of the index, whatever the
  interleaving of the jobs was; \<open>concatDirSrt\<close> reads their \<open>.json\<close> files in the same
  order; with no surviving segment the batch fails; and the result is partial exactly
  when some segment failed.
\<close>

theorem merge_in_index_order:
  assumes names: "\<forall>p r. generateSingleVoice env p = Inr r \<longrightarrow> audio r = output' p"
    and fresh: "\<forall>segment\<in>set segments. cache s (cacheKeyOf env segment) = None"
    and keys: "distinct (map (cacheKeyOf env) segments)"
  shows
    "(survivors env (tmpDirPathOf env segmentId) segments = [] \<longrightarrow>
        fst (buildSegmentList env task schedule segmentId segments s) = Inl NoMP3Files) \<and>
     (survivors env (tmpDirPathOf env segmentId) segments \<noteq> [] \<longrightarrow>
        audioInputs (snd (buildSegmentList env task schedule segmentId segments s)) =
          Some (map (splitOutput (tmpDirPathOf env segmentId))
                  (survivors env (tmpDirPathOf env segmentId) segments))) \<and>
     (survivors env (tmpDirPathOf env segmentId) segments \<noteq> [] \<and>
      ffmpegConcat env
        (map (splitOutput (tmpDirPathOf env segmentId))
           (survivors env (tmpDirPathOf env segmentId) segments))
        (pathResolve (AUDIO_DIR env) segmentId) = None \<longrightarrow>
        subtitleInputs (snd (buildSegmentList env task schedule segmentId segments s)) =
          Some (map (\<lambda>i. splitOutput (tmpDirPathOf env segmentId) i @ ''.json'')
                  (survivors env (tmpDirPathOf env segmentId) segments))) \<and>
     (\<forall>r. fst (buildSegmentList env task schedule segmentId segments s) = Inr r \<longrightarrow>
        partial r =
          Some (length (survivors env (tmpDirPathOf env segmentId) segments) < length segments))"
proof -
  let ?n = "length segments"
  let ?dir = "tmpDirPathOf env segmentId"
  let ?s0 = "s\<lparr>phases := replicate ?n Waiting, fileList := [], handledLength := 0\<rparr>"
  let ?s1 = "runConcurrentTasks env task ?dir segments schedule ?s0"
  have "batchInv env ?dir segments ?s0"
    unfolding batchInv_def
  proof (intro conjI)
    show "\<exists>js. fileList ?s0 = map (splitOutput ?dir) js \<and> distinct js \<and>
        set js = {i. i < ?n \<and> phases ?s0 ! i = Done True}"
      by (intro exI [of _ "[]"]) simp
    show "\<forall>i<?n.
        (phases ?s0 ! i = Done True \<longrightarrow> synthesised env ?dir segments i) \<and>
        (phases ?s0 ! i = Done False \<longrightarrow> \<not> synthesised env ?dir segments i) \<and>
        (phases ?s0 ! i \<noteq> Done True \<longrightarrow> cache ?s0 (cacheKeyOf env (segments ! i)) = None)"
      using fresh by simp
  qed simp
  then have inv: "batchInv env ?dir segments ?s1"
    unfolding runConcurrentTasks_def by (rule fold_stepTask_batchInv [OF names keys])
  have "length (phases ?s0) = ?n" by simp
  from runConcurrentTasks_done [OF this, of env task ?dir schedule]
  have ended: "\<forall>i<?n. isDone (phases ?s1 ! i)" by simp
  from survivors_of_batch [OF inv ended] obtain js where
    files: "fileList ?s1 = map (splitOutput ?dir) js" and
    alive: "sort js = survivors env ?dir segments" and
    failed: "Done False \<in> set (phases ?s1) \<longleftrightarrow> length (survivors env ?dir segments) < ?n"
    by blast
  from buildSegmentList_consumes [OF files] alive failed show ?thesis
    by simp
qed

theorem merge_in_index_order_witness:
  "survivors exampleEnv (tmpDirPathOf exampleEnv ''id.mp3'') exampleSegments = [0, 2] \<and>
   audioInputs (snd (buildSegmentList exampleEnv True [2, 0, 2, 1, 0] ''id.mp3'' exampleSegments
                       emptyWorld)) =
     Some [''/audio/id/1_splits.mp3'', ''/audio/id/3_splits.mp3''] \<and>
   subtitleInputs (snd (buildSegmentList exampleEnv True [2, 0, 2, 1, 0] ''id.mp3'' exampleSegments
                          emptyWorld)) =
     Some [''/audio/id/1_splits.mp3.json'', ''/audio/id/3_splits.mp3.json'']"
proof -
  have names: "\<forall>p r. generateSingleVoice exampleEnv p = Inr r \<longrightarrow> audio r = output' p"
    by (auto simp: exampleEnv_def split: if_splits)
  have fresh: "\<forall>segment\<in>set exampleSegments. cache emptyWorld (cacheKeyOf exampleEnv segment) = None"
    by (simp add: emptyWorld_def)
  have keys: "distinct (map (cacheKeyOf exampleEnv) exampleSegments)"
    by code_simp
  have alive: "survivors exampleEnv (tmpDirPathOf exampleEnv ''id.mp3'') exampleSegments = [0, 2]"
    by code_simp
  have au: "map (splitOutput (tmpDirPathOf exampleEnv ''id.mp3'')) [0, 2] =
      [''/audio/id/1_splits.mp3'', ''/audio/id/3_splits.mp3'']"
    by code_simp
  have js: "map (\<lambda>i. splitOutput (tmpDirPathOf exampleEnv ''id.mp3'') i @ ''.json'') [0, 2] =
      [''/audio/id/1_splits.mp3.json'', ''/audio/id/3_splits.mp3.json'']"
    by code_simp
  have ff: "ffmpegConcat exampleEnv [''/audio/id/1_splits.mp3'', ''/audio/id/3_splits.mp3'']
      (pathResolve (AUDIO_DIR exampleEnv) ''id.mp3'') = None"
    by (simp add: exampleEnv_def)
  from merge_in_index_order [OF names fresh keys, of "''id.mp3''" True "[2, 0, 2, 1, 0]"]
    alive au js ff
  show ?thesis by simp
qed

text \<open>
  C4 says that the files of a batch are consumed in the order of the segment indices.
  For a segment found in the cache the source pushes the cached path, and
  \<open>sortAudioDir\<close> reads the index from the name of that file, which is the index the
  segment had in the batch that wrote the entry. After a request for \<open>C.A.\<close> the cache
  holds \<open>1_splits.mp3\<close> for \<open>C.\<close> and \<open>2_splits.mp3\<close> for \<open>A.\<close>; the request for \<open>A.C.\<close> that
  follows finds both segments in the cache and is merged from the file of \<open>C.\<close> followed
  by the file of \<open>A.\<close>.
\<close>

theorem cached_segments_merged_out_of_order:
  "map_option audio
     (cache (snd (generateTTS exampleEnv True []
                    (exampleRequest ''C.A.'' ''zh-CN-XiaoyiNeural'' False) emptyWorld))
        ''C.|zh-CN-XiaoyiNeural'') = Some ''/audio/id/1_splits.mp3'' \<and>
   map_option audio
     (cache (snd (generateTTS exampleEnv True []
                    (exampleRequest ''C.A.'' ''zh-CN-XiaoyiNeural'' False) emptyWorld))
        ''A.|zh-CN-XiaoyiNeural'') = Some ''/audio/id/2_splits.mp3'' \<and>
   fst (generateTTS exampleEnv True [] (exampleRequest ''A.C.'' ''zh-CN-XiaoyiNeural'' False)
          (snd (generateTTS exampleEnv True []
                  (exampleRequest ''C.A.'' ''zh-CN-XiaoyiNeural'' False) emptyWorld))) =
     Inr \<lparr>audio = ''/id.mp3'', srt = ''/id.srt'', partial = Some False\<rparr> \<and>
   audioInputs
     (snd (generateTTS exampleEnv True [] (exampleRequest ''A.C.'' ''zh-CN-XiaoyiNeural'' False)
             (snd (generateTTS exampleEnv True []
                     (exampleRequest ''C.A.'' ''zh-CN-XiaoyiNeural'' False) emptyWorld)))) =
     Some [''/audio/id/1_splits.mp3'', ''/audio/id/2_splits.mp3'']"
  by code_simp

end
